theory Spec2Isabelle
  imports Main
begin

section \<open>JavaScript strings\<close>

text \<open>
  A JavaScript string is a sequence of UTF-16 code units. Here a string holds the code
  units 0 to 255 (the Latin-1 range), one \<^typ>\<open>char\<close> each, so \<^typ>\<open>string\<close> is the string
  type of the program restricted to that range.
\<close>

definition cu :: "char \<Rightarrow> int" where
  "cu c = of_char c"

text \<open>
  \<open>String.prototype.trim\<close> removes WhiteSpace and LineTerminator code units from both
  ends: TAB, LF, VT, FF, CR, SP and NBSP are the ones in range.
\<close>

definition is_js_space :: "char \<Rightarrow> bool" where
  "is_js_space c = (cu c \<in> set [9, 10, 11, 12, 13, 32, 160])"

definition trim :: "string \<Rightarrow> string" where
  "trim s = rev (dropWhile is_js_space (rev (dropWhile is_js_space s)))"

text \<open>\<open>s.split("\n")\<close>: the pieces between line feeds; the empty string gives one empty piece.\<close>

fun split_nl :: "string \<Rightarrow> string list" where
  "split_nl [] = [[]]"
| "split_nl (c # cs) =
     (if c = CHR 0x0A then [] # split_nl cs
      else (case split_nl cs of
              l # ls \<Rightarrow> (c # l) # ls
            | [] \<Rightarrow> [[c]]))"

definition is_lower_cu :: "char \<Rightarrow> bool" where
  "is_lower_cu c =
     ((97 \<le> cu c \<and> cu c \<le> 122) \<or> (224 \<le> cu c \<and> cu c \<le> 254 \<and> cu c \<noteq> 247))"

definition is_upper_cu :: "char \<Rightarrow> bool" where
  "is_upper_cu c =
     ((65 \<le> cu c \<and> cu c \<le> 90) \<or> (192 \<le> cu c \<and> cu c \<le> 222 \<and> cu c \<noteq> 215))"

text \<open>
  The simple upper-case mapping of one code unit. The sharp s (223), the micro sign (181)
  and y with diaeresis (255) have no single upper-case code unit in range and map to
  themselves; no other code unit in range maps onto them.
\<close>

definition upper_cu :: "char \<Rightarrow> char" where
  "upper_cu c = (if is_lower_cu c then char_of (cu c - 32) else c)"

definition lower_cu :: "char \<Rightarrow> char" where
  "lower_cu c = (if is_upper_cu c then char_of (cu c + 32) else c)"

text \<open>
  \<open>String.prototype.toUpperCase\<close>: the sharp s becomes \<open>SS\<close>. The upper-case forms of the
  micro sign and of y with diaeresis lie outside the range and are not represented: the
  two code units are left as they are. The program applies the function to the verb group
  of a signature, which captures ASCII word characters only; there it is the ASCII mapping.
\<close>

definition toUpperCase :: "string \<Rightarrow> string" where
  "toUpperCase s = concat (map (\<lambda>c. if cu c = 223 then ''SS'' else [upper_cu c]) s)"

section \<open>Regular expressions\<close>

subsection \<open>Abstract syntax\<close>

datatype class_item =
    CChar char
  | CRange char char
  | CDigit | CNonDigit
  | CWord | CNonWord
  | CSpace | CNonSpace

datatype regex =
    REmpty
  | RChar char
  | RAny
  | RSet bool "class_item list"
  | RBol
  | REol
  | RSeq regex regex
  | RAlt regex regex
  | RStar bool regex
  | RPlus bool regex
  | ROpt bool regex
  | RGroup nat regex

text \<open>
  \<open>RSet neg items\<close> is a character class, inverted when \<open>neg\<close> holds. The flag of
  \<open>RStar\<close>, \<open>RPlus\<close> and \<open>ROpt\<close> is greediness. \<open>RGroup n r\<close> is the \<open>n\<close>-th capturing group,
  counted by opening parenthesis from 1.
\<close>

datatype error = SyntaxError | OutsideModel

text \<open>
  \<open>SyntaxError\<close> is the exception the \<open>RegExp\<close> constructor throws on a pattern that is not
  a regular expression. \<open>OutsideModel\<close> marks a pattern that uses syntax this development
  does not interpret (look-around, back references, braced quantifiers, named groups,
  \<open>\b\<close>, hexadecimal, unicode, control-letter and letter or digit escapes): nothing is
  stated about such a pattern.
\<close>

subsection \<open>Parsing a pattern\<close>

text \<open>
  The pattern grammar of ECMAScript without the \<open>u\<close> and \<open>v\<close> flags (the grammar of
  \<open>new RegExp(source)\<close> and of a literal with flags \<open>i\<close> and \<open>g\<close> only), read one code
  unit at a time with an explicit stack of open groups.
\<close>

datatype pmode =
    PNormal
  | PEscape
  | PBrace
  | PGroupOpen
  | PGroupQ
  | PClassOpen
  | PClass bool "class_item list" "class_item option" bool
  | PClassEsc bool "class_item list" "class_item option" bool

text \<open>
  \<open>PClass neg items pend dash\<close>: inside a class, \<open>items\<close> newest first, \<open>pend\<close> the last atom
  read, which a following \<open>-\<close> (then \<open>dash\<close> holds) may turn into the start of a range.
\<close>

datatype qstate = QNone | QAtom | QQuant

record pstate =
  mode :: pmode
  stack :: "(nat option \<times> regex list \<times> regex list) list"
  alts :: "regex list"
  seq :: "regex list"
  quant :: qstate
  ngroups :: nat

definition init_pstate :: pstate where
  "init_pstate = \<lparr>mode = PNormal, stack = [], alts = [], seq = [], quant = QNone, ngroups = 0\<rparr>"

fun seq_of :: "regex list \<Rightarrow> regex" where
  "seq_of [] = REmpty"
| "seq_of [r] = r"
| "seq_of (r # rs) = RSeq r (seq_of rs)"

fun alt_of :: "regex list \<Rightarrow> regex" where
  "alt_of [] = REmpty"
| "alt_of [r] = r"
| "alt_of (r # rs) = RAlt r (alt_of rs)"

definition close_alts :: "pstate \<Rightarrow> regex" where
  "close_alts s = alt_of (rev (seq_of (rev (seq s)) # alts s))"

definition push_atom :: "regex \<Rightarrow> pstate \<Rightarrow> pstate" where
  "push_atom r s = s\<lparr>mode := PNormal, seq := r # seq s, quant := QAtom\<rparr>"

definition push_group :: "bool \<Rightarrow> pstate \<Rightarrow> pstate" where
  "push_group capturing s =
     s\<lparr>mode := PNormal,
       stack := ((if capturing then Some (Suc (ngroups s)) else None), alts s, seq s) # stack s,
       alts := [], seq := [], quant := QNone,
       ngroups := (if capturing then Suc (ngroups s) else ngroups s)\<rparr>"

definition quantify :: "(regex \<Rightarrow> regex) \<Rightarrow> pstate \<Rightarrow> error + pstate" where
  "quantify q s =
     (case quant s of
        QAtom \<Rightarrow> (case seq s of
                    r # rs \<Rightarrow> Inr (s\<lparr>seq := q r # rs, quant := QQuant\<rparr>)
                  | [] \<Rightarrow> Inl SyntaxError)
      | _ \<Rightarrow> Inl SyntaxError)"

fun make_lazy :: "regex \<Rightarrow> regex" where
  "make_lazy (RStar g r) = RStar False r"
| "make_lazy (RPlus g r) = RPlus False r"
| "make_lazy (ROpt g r) = ROpt False r"
| "make_lazy r = r"

definition is_digit :: "char \<Rightarrow> bool" where
  "is_digit c = (48 \<le> cu c \<and> cu c \<le> 57)"

definition is_ascii_letter :: "char \<Rightarrow> bool" where
  "is_ascii_letter c = ((65 \<le> cu c \<and> cu c \<le> 90) \<or> (97 \<le> cu c \<and> cu c \<le> 122))"

definition is_word :: "char \<Rightarrow> bool" where
  "is_word c = (is_ascii_letter c \<or> is_digit c \<or> c = CHR ''_'')"

text \<open>The class escapes \<open>\d \D \s \S \w \W\<close>.\<close>

definition class_escape :: "char \<Rightarrow> class_item option" where
  "class_escape c =
     (if c = CHR ''d'' then Some CDigit else if c = CHR ''D'' then Some CNonDigit
      else if c = CHR ''s'' then Some CSpace else if c = CHR ''S'' then Some CNonSpace
      else if c = CHR ''w'' then Some CWord else if c = CHR ''W'' then Some CNonWord
      else None)"

text \<open>
  The control escapes \<open>\t \n \v \f \r\<close>, and the identity escape of a code unit that is
  neither an ASCII letter nor a digit.
\<close>

definition char_escape :: "char \<Rightarrow> char option" where
  "char_escape c =
     (if c = CHR ''t'' then Some (CHR 0x09) else if c = CHR ''n'' then Some (CHR 0x0A)
      else if c = CHR ''v'' then Some (CHR 0x0B) else if c = CHR ''f'' then Some (CHR 0x0C)
      else if c = CHR ''r'' then Some (CHR 0x0D)
      else if is_ascii_letter c \<or> is_digit c then None
      else Some c)"

definition normal_char :: "char \<Rightarrow> pstate \<Rightarrow> error + pstate" where
  "normal_char c s =
     (if c = CHR 0x5C then Inr (s\<lparr>mode := PEscape\<rparr>)
      else if c = CHR ''('' then Inr (s\<lparr>mode := PGroupOpen\<rparr>)
      else if c = CHR '')'' then
        (case stack s of
           [] \<Rightarrow> Inl SyntaxError
         | (g, as, sq) # st \<Rightarrow>
             Inr (s\<lparr>mode := PNormal, stack := st, alts := as,
                    seq := (case g of None \<Rightarrow> close_alts s | Some n \<Rightarrow> RGroup n (close_alts s)) # sq,
                    quant := QAtom\<rparr>))
      else if c = CHR ''|'' then
        Inr (s\<lparr>alts := seq_of (rev (seq s)) # alts s, seq := [], quant := QNone\<rparr>)
      else if c = CHR ''*'' then quantify (RStar True) s
      else if c = CHR ''+'' then quantify (RPlus True) s
      else if c = CHR ''?'' then
        (case quant s of
           QAtom \<Rightarrow> quantify (ROpt True) s
         | QQuant \<Rightarrow> (case seq s of
                       r # rs \<Rightarrow> Inr (s\<lparr>seq := make_lazy r # rs, quant := QNone\<rparr>)
                     | [] \<Rightarrow> Inl SyntaxError)
         | QNone \<Rightarrow> Inl SyntaxError)
      else if c = CHR ''['' then Inr (s\<lparr>mode := PClassOpen\<rparr>)
      else if c = CHR ''{'' then Inr (s\<lparr>mode := PBrace\<rparr>)
      else if c = CHR ''.'' then Inr (push_atom RAny s)
      else if c = CHR ''^'' then Inr (s\<lparr>seq := RBol # seq s, quant := QNone\<rparr>)
      else if c = CHR ''$'' then Inr (s\<lparr>seq := REol # seq s, quant := QNone\<rparr>)
      else Inr (push_atom (RChar c) s))"

definition class_atom ::
  "class_item \<Rightarrow> bool \<Rightarrow> class_item list \<Rightarrow> class_item option \<Rightarrow> bool \<Rightarrow> pstate \<Rightarrow> error + pstate"
where
  "class_atom b neg items pend dash s =
     (if dash then
        (case pend of
           Some (CChar lo) \<Rightarrow>
             (case b of
                CChar hi \<Rightarrow>
                  if cu lo \<le> cu hi then Inr (s\<lparr>mode := PClass neg (CRange lo hi # items) None False\<rparr>)
                  else Inl SyntaxError
              | _ \<Rightarrow> Inr (s\<lparr>mode := PClass neg (b # CChar (CHR ''-'') # CChar lo # items) None False\<rparr>))
         | Some a \<Rightarrow> Inr (s\<lparr>mode := PClass neg (b # CChar (CHR ''-'') # a # items) None False\<rparr>)
         | None \<Rightarrow> Inr (s\<lparr>mode := PClass neg (b # CChar (CHR ''-'') # items) None False\<rparr>))
      else
        Inr (s\<lparr>mode := PClass neg ((case pend of None \<Rightarrow> [] | Some a \<Rightarrow> [a]) @ items) (Some b) False\<rparr>))"

definition class_char ::
  "char \<Rightarrow> bool \<Rightarrow> class_item list \<Rightarrow> class_item option \<Rightarrow> bool \<Rightarrow> pstate \<Rightarrow> error + pstate"
where
  "class_char c neg items pend dash s =
     (if c = CHR '']'' then
        Inr (push_atom
               (RSet neg (rev ((if dash then [CChar (CHR ''-'')] else [])
                               @ (case pend of None \<Rightarrow> [] | Some a \<Rightarrow> [a]) @ items))) s)
      else if c = CHR 0x5C then Inr (s\<lparr>mode := PClassEsc neg items pend dash\<rparr>)
      else if c = CHR ''-'' \<and> pend \<noteq> None \<and> \<not> dash then Inr (s\<lparr>mode := PClass neg items pend True\<rparr>)
      else class_atom (CChar c) neg items pend dash s)"

definition pstep :: "char \<Rightarrow> pstate \<Rightarrow> error + pstate" where
  "pstep c s =
     (case mode s of
        PNormal \<Rightarrow> normal_char c s
      | PEscape \<Rightarrow>
          (case class_escape c of
             Some k \<Rightarrow> Inr (push_atom (RSet False [k]) s)
           | None \<Rightarrow> (case char_escape c of
                        Some a \<Rightarrow> Inr (push_atom (RChar a) s)
                      | None \<Rightarrow> Inl OutsideModel))
      | PBrace \<Rightarrow>
          (if is_digit c then Inl OutsideModel
           else normal_char c (push_atom (RChar (CHR ''{'')) s))
      | PGroupOpen \<Rightarrow>
          (if c = CHR ''?'' then Inr (s\<lparr>mode := PGroupQ\<rparr>)
           else normal_char c (push_group True s))
      | PGroupQ \<Rightarrow>
          (if c = CHR '':'' then Inr (push_group False s) else Inl OutsideModel)
      | PClassOpen \<Rightarrow>
          (if c = CHR ''^'' then Inr (s\<lparr>mode := PClass True [] None False\<rparr>)
           else class_char c False [] None False s)
      | PClass neg items pend dash \<Rightarrow> class_char c neg items pend dash s
      | PClassEsc neg items pend dash \<Rightarrow>
          (case class_escape c of
             Some k \<Rightarrow> class_atom k neg items pend dash s
           | None \<Rightarrow>
               (if c = CHR ''b'' then class_atom (CChar (CHR 0x08)) neg items pend dash s
                else (case char_escape c of
                        Some a \<Rightarrow> class_atom (CChar a) neg items pend dash s
                      | None \<Rightarrow> Inl OutsideModel))))"

definition pfinish :: "pstate \<Rightarrow> error + regex" where
  "pfinish s =
     (case mode s of
        PNormal \<Rightarrow> (if stack s = [] then Inr (close_alts s) else Inl SyntaxError)
      | PBrace \<Rightarrow> (if stack s = [] then Inr (close_alts (push_atom (RChar (CHR ''{'')) s))
                   else Inl SyntaxError)
      | _ \<Rightarrow> Inl SyntaxError)"

fun parse_chars :: "string \<Rightarrow> pstate \<Rightarrow> error + regex" where
  "parse_chars [] s = pfinish s"
| "parse_chars (c # cs) s =
     (case pstep c s of
        Inl e \<Rightarrow> Inl e
      | Inr s' \<Rightarrow> parse_chars cs s')"

text \<open>\<open>new RegExp(source)\<close>: the compiled pattern, or the exception.\<close>

definition regexp_parse :: "string \<Rightarrow> error + regex" where
  "regexp_parse source = parse_chars source init_pstate"

subsection \<open>Matching\<close>

text \<open>
  \<open>Canonicalize\<close> of the specification: under the \<open>i\<close> flag two code units are compared
  by their upper-case forms.
\<close>

definition canon :: "bool \<Rightarrow> char \<Rightarrow> char" where
  "canon ic c = (if ic then upper_cu c else c)"

definition in_range :: "char \<Rightarrow> char \<Rightarrow> char \<Rightarrow> bool" where
  "in_range lo hi c = (cu lo \<le> cu c \<and> cu c \<le> cu hi)"

text \<open>
  A code unit is in a class item when some member of the item has the same canonical
  form. For a range under \<open>i\<close> the members with the canonical form of \<open>c\<close> are \<open>c\<close> and its
  two case variants.
\<close>

fun item_matches :: "bool \<Rightarrow> class_item \<Rightarrow> char \<Rightarrow> bool" where
  "item_matches ic (CChar a) c = (canon ic a = canon ic c)"
| "item_matches ic (CRange lo hi) c =
     (in_range lo hi c \<or> (ic \<and> (in_range lo hi (upper_cu c) \<or> in_range lo hi (lower_cu c))))"
| "item_matches ic CDigit c = is_digit c"
| "item_matches ic CNonDigit c = (\<not> is_digit c)"
| "item_matches ic CWord c = is_word c"
| "item_matches ic CNonWord c = (\<not> is_word c)"
| "item_matches ic CSpace c = is_js_space c"
| "item_matches ic CNonSpace c = (\<not> is_js_space c)"

definition set_matches :: "bool \<Rightarrow> bool \<Rightarrow> class_item list \<Rightarrow> char \<Rightarrow> bool" where
  "set_matches ic neg items c = (list_ex (\<lambda>it. item_matches ic it c) items \<noteq> neg)"

text \<open>The dot matches every code unit but the line terminators LF and CR.\<close>

definition any_matches :: "char \<Rightarrow> bool" where
  "any_matches c = (c \<noteq> CHR 0x0A \<and> c \<noteq> CHR 0x0D)"

text \<open>
  A matcher state: the index reached, the input from there on, and the captures (group
  number and captured text; a group that has not taken part is absent).
\<close>

type_synonym mstate = "nat \<times> string \<times> (nat \<times> string) list"

definition pos :: "mstate \<Rightarrow> nat" where
  "pos st = fst st"

definition rest :: "mstate \<Rightarrow> string" where
  "rest st = fst (snd st)"

definition caps :: "mstate \<Rightarrow> (nat \<times> string) list" where
  "caps st = snd (snd st)"

definition step_char :: "(char \<Rightarrow> bool) \<Rightarrow> mstate \<Rightarrow> mstate list" where
  "step_char p st =
     (case rest st of
        [] \<Rightarrow> []
      | x # xs \<Rightarrow> if p x then [(Suc (pos st), xs, caps st)] else [])"

fun groups_of :: "regex \<Rightarrow> nat list" where
  "groups_of (RSeq a b) = groups_of a @ groups_of b"
| "groups_of (RAlt a b) = groups_of a @ groups_of b"
| "groups_of (RStar g r) = groups_of r"
| "groups_of (RPlus g r) = groups_of r"
| "groups_of (ROpt g r) = groups_of r"
| "groups_of (RGroup n r) = n # groups_of r"
| "groups_of r = []"

definition clear_caps :: "nat list \<Rightarrow> mstate \<Rightarrow> mstate" where
  "clear_caps ns st = (pos st, rest st, filter (\<lambda>kv. fst kv \<notin> set ns) (caps st))"

definition set_cap :: "nat \<Rightarrow> mstate \<Rightarrow> mstate \<Rightarrow> mstate" where
  "set_cap n st y =
     (pos y, rest y, (n, take (pos y - pos st) (rest st)) # filter (\<lambda>kv. fst kv \<noteq> n) (caps y))"

text \<open>
  \<open>RepeatMatcher\<close> with no upper bound, after the mandatory iterations: every iteration
  must consume input, so the length of the remaining input bounds the number of
  iterations and is passed as \<open>n\<close>. The results are listed in the order in which
  backtracking tries them: for a greedy quantifier one more iteration first.
\<close>

fun star :: "bool \<Rightarrow> (mstate \<Rightarrow> mstate list) \<Rightarrow> nat \<Rightarrow> mstate \<Rightarrow> mstate list" where
  "star g f 0 st = [st]"
| "star g f (Suc n) st =
     (let more = concat (map (star g f n) (filter (\<lambda>y. pos y \<noteq> pos st) (f st)))
      in if g then more @ [st] else st # more)"

text \<open>
  All the ways the pattern matches at a state, in backtracking order; the head of the
  list is the match the engine reports. The captures of the groups inside a quantified
  term are reset at the start of each iteration.
\<close>

primrec ms :: "bool \<Rightarrow> regex \<Rightarrow> mstate \<Rightarrow> mstate list" where
  "ms ic REmpty st = [st]"
| "ms ic (RChar a) st = step_char (\<lambda>x. canon ic x = canon ic a) st"
| "ms ic RAny st = step_char any_matches st"
| "ms ic (RSet neg items) st = step_char (set_matches ic neg items) st"
| "ms ic RBol st = (if pos st = 0 then [st] else [])"
| "ms ic REol st = (if rest st = [] then [st] else [])"
| "ms ic (RSeq a b) st = concat (map (ms ic b) (ms ic a st))"
| "ms ic (RAlt a b) st = ms ic a st @ ms ic b st"
| "ms ic (RStar g r) st =
     star g (\<lambda>x. ms ic r (clear_caps (groups_of r) x)) (length (rest st)) st"
| "ms ic (RPlus g r) st =
     concat (map (\<lambda>y. star g (\<lambda>x. ms ic r (clear_caps (groups_of r) x)) (length (rest y)) y)
                 (ms ic r (clear_caps (groups_of r) st)))"
| "ms ic (ROpt g r) st =
     (let once = filter (\<lambda>y. pos y \<noteq> pos st) (ms ic r (clear_caps (groups_of r) st))
      in if g then once @ [st] else st # once)"
| "ms ic (RGroup n r) st = map (set_cap n st) (ms ic r st)"

text \<open>
  \<open>RegExpBuiltinExec\<close>: the first index from \<open>i\<close> on at which the pattern matches, with
  the state at the end of that match; \<open>xs\<close> is the input from \<open>i\<close> on.
\<close>

fun exec_at :: "bool \<Rightarrow> regex \<Rightarrow> nat \<Rightarrow> string \<Rightarrow> (nat \<times> mstate) option" where
  "exec_at ic re i xs =
     (case ms ic re (i, xs, []) of
        y # ys \<Rightarrow> Some (i, y)
      | [] \<Rightarrow> (case xs of
                 [] \<Rightarrow> None
               | x # xs' \<Rightarrow> exec_at ic re (Suc i) xs'))"

declare exec_at.simps [simp del]

text \<open>
  \<open>RegExp.prototype.test\<close> of an expression without the \<open>g\<close> flag: the search starts at
  index 0 whatever \<open>lastIndex\<close> is, and \<open>lastIndex\<close> is not written.
\<close>

definition regexp_test :: "bool \<Rightarrow> regex \<Rightarrow> string \<Rightarrow> bool" where
  "regexp_test ic re s = (exec_at ic re 0 s \<noteq> None)"

text \<open>A match moves forward in the input: it consumes a prefix of what is left.\<close>

definition advances :: "mstate \<Rightarrow> mstate \<Rightarrow> bool" where
  "advances st y = (pos st \<le> pos y \<and> pos y - pos st \<le> length (rest st)
                    \<and> rest y = drop (pos y - pos st) (rest st))"

lemma advances_refl: "advances st st"
  by (simp add: advances_def)

lemma advances_trans:
  assumes "advances a b" and "advances b c"
  shows "advances a c"
proof -
  from assms have ab: "pos a \<le> pos b" "pos b - pos a \<le> length (rest a)"
      "rest b = drop (pos b - pos a) (rest a)"
    and bc: "pos b \<le> pos c" "pos c - pos b \<le> length (rest b)"
      "rest c = drop (pos c - pos b) (rest b)"
    by (simp_all add: advances_def)
  have "pos c - pos a = (pos c - pos b) + (pos b - pos a)"
    using ab(1) bc(1) by simp
  moreover have "length (rest b) = length (rest a) - (pos b - pos a)"
    using ab(3) by simp
  ultimately show ?thesis
    using ab bc by (simp add: advances_def)
qed

lemma advances_clear: "advances (clear_caps ns st) y = advances st y"
  by (simp add: advances_def clear_caps_def pos_def rest_def)

lemma advances_set_cap: "advances st (set_cap n x y) = advances st y"
  by (simp add: advances_def set_cap_def pos_def rest_def)

lemma step_char_advances: "y \<in> set (step_char p st) \<Longrightarrow> advances st y"
  by (cases "rest st")
     (auto simp add: step_char_def advances_def pos_def rest_def split: if_splits)

lemma star_advances:
  assumes f: "\<And>x y. y \<in> set (f x) \<Longrightarrow> advances x y"
  shows "y \<in> set (star g f n st) \<Longrightarrow> advances st y"
proof (induction n arbitrary: st y)
  case 0
  then show ?case by (simp add: advances_refl)
next
  case (Suc n)
  from Suc.prems
  consider "y = st" | z where "z \<in> set (f st)" "y \<in> set (star g f n z)"
    by (auto simp add: Let_def split: if_splits)
  then show ?case
  proof cases
    case 1
    then show ?thesis by (simp add: advances_refl)
  next
    case 2
    then show ?thesis using advances_trans f Suc.IH by blast
  qed
qed

lemma ms_advances: "y \<in> set (ms ic r st) \<Longrightarrow> advances st y"
proof (induction r arbitrary: st y)
  case REmpty
  then show ?case by (simp add: advances_refl)
next
  case (RChar c)
  then show ?case by (simp add: step_char_advances)
next
  case RAny
  then show ?case by (simp add: step_char_advances)
next
  case (RSet neg items)
  then show ?case by (simp add: step_char_advances)
next
  case RBol
  then show ?case by (simp add: advances_refl split: if_splits)
next
  case REol
  then show ?case by (simp add: advances_refl split: if_splits)
next
  case (RSeq a b)
  from RSeq.prems obtain z where "z \<in> set (ms ic a st)" "y \<in> set (ms ic b z)"
    by auto
  then show ?case using RSeq.IH advances_trans by blast
next
  case (RAlt a b)
  from RAlt.prems have "y \<in> set (ms ic a st) \<or> y \<in> set (ms ic b st)"
    by simp
  then show ?case using RAlt.IH by blast
next
  case (RStar g r)
  have f: "\<And>x z. z \<in> set (ms ic r (clear_caps (groups_of r) x)) \<Longrightarrow> advances x z"
    using RStar.IH advances_clear by blast
  from RStar.prems
  have "y \<in> set (star g (\<lambda>x. ms ic r (clear_caps (groups_of r) x)) (length (rest st)) st)"
    by simp
  then show ?case
    using star_advances [of "\<lambda>x. ms ic r (clear_caps (groups_of r) x)" y g "length (rest st)" st] f
    by blast
next
  case (RPlus g r)
  have f: "\<And>x z. z \<in> set (ms ic r (clear_caps (groups_of r) x)) \<Longrightarrow> advances x z"
    using RPlus.IH advances_clear by blast
  from RPlus.prems obtain z where z: "z \<in> set (ms ic r (clear_caps (groups_of r) st))"
    and y: "y \<in> set (star g (\<lambda>x. ms ic r (clear_caps (groups_of r) x)) (length (rest z)) z)"
    by auto
  have "advances z y"
    using star_advances [of "\<lambda>x. ms ic r (clear_caps (groups_of r) x)" y g "length (rest z)" z] f y
    by blast
  then show ?case using f z advances_trans by blast
next
  case (ROpt g r)
  have f: "\<And>x z. z \<in> set (ms ic r (clear_caps (groups_of r) x)) \<Longrightarrow> advances x z"
    using ROpt.IH advances_clear by blast
  from ROpt.prems
  have "y = st \<or> y \<in> set (ms ic r (clear_caps (groups_of r) st))"
    by (auto simp add: Let_def split: if_splits)
  then show ?case using f advances_refl by blast
next
  case (RGroup n r)
  from RGroup.prems obtain z where "z \<in> set (ms ic r st)" "y = set_cap n st z"
    by auto
  then show ?case using RGroup.IH by (simp add: advances_set_cap)
qed

text \<open>
  The bound passed to \<open>star\<close> is enough: an iteration that is kept consumes input, so
  with a bound at least the length of the remaining input, a larger bound gives the same
  result.
\<close>

lemma moved_shorter:
  assumes "advances st y" and "pos y \<noteq> pos st"
  shows "length (rest y) < length (rest st)"
proof -
  from assms have "pos st < pos y" and "length (rest y) = length (rest st) - (pos y - pos st)"
    and "pos y - pos st \<le> length (rest st)"
    by (simp_all add: advances_def)
  then show ?thesis by simp
qed

lemma star_bound_enough:
  assumes f: "\<And>x y. y \<in> set (f x) \<Longrightarrow> advances x y"
  shows "length (rest st) \<le> n \<Longrightarrow> star g f (Suc n) st = star g f n st"
proof (induction n arbitrary: st)
  case 0
  have "pos y = pos st" if "y \<in> set (f st)" for y
  proof (rule ccontr)
    assume "pos y \<noteq> pos st"
    moreover have "advances st y" using that by (rule f)
    ultimately have "length (rest y) < length (rest st)" by (rule moved_shorter [rotated])
    then show False using "0.prems" by simp
  qed
  then have "filter (\<lambda>y. pos y \<noteq> pos st) (f st) = []"
    by (simp add: filter_empty_conv)
  then show ?case by simp
next
  case (Suc n)
  have "star g f (Suc n) y = star g f n y"
    if "y \<in> set (filter (\<lambda>y. pos y \<noteq> pos st) (f st))" for y
  proof -
    from that have "y \<in> set (f st)" and moved: "pos y \<noteq> pos st" by simp_all
    then have "advances st y" using f by blast
    then have "length (rest y) < length (rest st)" using moved by (rule moved_shorter)
    then have "length (rest y) \<le> n" using Suc.prems by simp
    then show ?thesis by (rule Suc.IH)
  qed
  then have eq: "map (star g f (Suc n)) (filter (\<lambda>y. pos y \<noteq> pos st) (f st))
               = map (star g f n) (filter (\<lambda>y. pos y \<noteq> pos st) (f st))"
    by (rule map_cong [OF refl])
  have "star g f (Suc (Suc n)) st
          = (let more = concat (map (star g f (Suc n)) (filter (\<lambda>y. pos y \<noteq> pos st) (f st)))
             in if g then more @ [st] else st # more)"
    by (rule star.simps(2))
  also have "\<dots> = (let more = concat (map (star g f n) (filter (\<lambda>y. pos y \<noteq> pos st) (f st)))
             in if g then more @ [st] else st # more)"
    by (simp only: eq)
  also have "\<dots> = star g f (Suc n) st"
    by (rule star.simps(2) [symmetric])
  finally show ?case .
qed

lemma star_bound_irrelevant:
  assumes f: "\<And>x y. y \<in> set (f x) \<Longrightarrow> advances x y"
  shows "star g f (length (rest st) + k) st = star g f (length (rest st)) st"
proof (induction k)
  case 0
  then show ?case by simp
next
  case (Suc k)
  have "star g f (Suc (length (rest st) + k)) st = star g f (length (rest st) + k) st"
    by (rule star_bound_enough [OF f]) simp_all
  then show ?case using Suc by simp
qed

lemma ms_star_bound:
  "star g (\<lambda>x. ms ic r (clear_caps (groups_of r) x)) (length (rest st) + k) st
     = ms ic (RStar g r) st"
proof -
  have "\<And>x y. y \<in> set (ms ic r (clear_caps (groups_of r) x)) \<Longrightarrow> advances x y"
    using ms_advances advances_clear by blast
  then show ?thesis
    using star_bound_irrelevant [of "\<lambda>x. ms ic r (clear_caps (groups_of r) x)" g st k]
    by simp
qed

lemma exec_at_advances:
  "exec_at ic re i xs = Some (j, y) \<Longrightarrow>
     i \<le> j \<and> j \<le> pos y \<and> pos y + length (rest y) = i + length xs"
proof (induction xs arbitrary: i)
  case Nil
  then obtain ys where "ms ic re (i, [], []) = y # ys" and "j = i"
    using exec_at.simps [of ic re i "[]"] by (auto split: list.splits)
  then have "advances (i, [], []) y" using ms_advances [of y ic re "(i, [], [])"] by simp
  then show ?case using \<open>j = i\<close> by (simp add: advances_def pos_def rest_def)
next
  case (Cons x xs)
  show ?case
  proof (cases "ms ic re (i, x # xs, [])")
    case Nil
    then have "exec_at ic re (Suc i) xs = Some (j, y)"
      using Cons.prems exec_at.simps [of ic re i "x # xs"] by simp
    then show ?thesis using Cons.IH [of "Suc i"] by simp
  next
    case (Cons z zs)
    then have "z = y" "j = i"
      using Cons.prems exec_at.simps [of ic re i "x # xs"] by simp_all
    then have "advances (i, x # xs, []) y"
      using Cons ms_advances [of y ic re "(i, x # xs, [])"] by simp
    then show ?thesis using \<open>j = i\<close> by (auto simp add: advances_def pos_def rest_def)
  qed
qed

text \<open>
  One element of the iterator of \<open>String.prototype.matchAll\<close>: where the match starts and
  ends, and its groups (\<open>match[n]\<close> for \<open>n\<close> from 1; an absent group is \<open>undefined\<close>).
\<close>

record jsmatch =
  m_index :: nat
  m_end :: nat
  m_groups :: "(nat \<times> string) list"

definition group :: "jsmatch \<Rightarrow> nat \<Rightarrow> string option" where
  "group m n = map_of (m_groups m) n"

text \<open>
  \<open>str.matchAll(re)\<close> for an expression with the \<open>g\<close> flag. The iterator works on a clone
  of the expression, whose \<open>lastIndex\<close> starts at that of the original (0 for a fresh
  literal); the original is not written. Each step searches from \<open>lastIndex\<close>, and sets
  it to the end of the match, one further after an empty match.
\<close>

function matchAll_at :: "bool \<Rightarrow> regex \<Rightarrow> nat \<Rightarrow> string \<Rightarrow> jsmatch list" where
  "matchAll_at ic re i xs =
     (case exec_at ic re i xs of
        None \<Rightarrow> []
      | Some (j, y) \<Rightarrow>
          \<lparr>m_index = j, m_end = pos y, m_groups = caps y\<rparr> #
          (if pos y = j then
             (case rest y of
                [] \<Rightarrow> []
              | z # zs \<Rightarrow> matchAll_at ic re (Suc (pos y)) zs)
           else matchAll_at ic re (pos y) (rest y)))"
  by pat_completeness auto

termination
proof (relation "measure (\<lambda>(ic, re, i, xs). length xs)")
  show "wf (measure (\<lambda>(ic, re, i, xs). length xs))" by simp
next
  fix ic re i xs p j y z zs
  assume "exec_at ic re i xs = Some p" and "(j, y) = p" and "pos y = j" and "rest y = z # zs"
  then show "((ic, re, Suc (pos y), zs), (ic, re, i, xs)) \<in> measure (\<lambda>(ic, re, i, xs). length xs)"
    using exec_at_advances [of ic re i xs j y] by auto
next
  fix ic re i xs p j y
  assume "exec_at ic re i xs = Some p" and "(j, y) = p" and "pos y \<noteq> j"
  then show "((ic, re, pos y, rest y), (ic, re, i, xs)) \<in> measure (\<lambda>(ic, re, i, xs). length xs)"
    using exec_at_advances [of ic re i xs j y] by auto
qed

declare matchAll_at.simps [simp del]

definition matchAll :: "bool \<Rightarrow> regex \<Rightarrow> string \<Rightarrow> jsmatch list" where
  "matchAll ic re s = matchAll_at ic re 0 s"

section \<open>The program\<close>

text \<open>The backslash and the line feed, which a string literal here cannot hold.\<close>

abbreviation bs :: string where
  "bs \<equiv> [CHR 0x5C]"

abbreviation nl :: string where
  "nl \<equiv> [CHR 0x0A]"

text \<open>
  A regular expression literal of the source, given by its text between the slashes. A
  literal that is not a regular expression is an early error of the whole script; the
  literals of this program all parse (lemma \<open>literals_parse\<close>).
\<close>

definition regex_literal :: "string \<Rightarrow> regex" where
  "regex_literal source = (case regexp_parse source of Inr re \<Rightarrow> re | Inl e \<Rightarrow> REmpty)"

subsection \<open>\<open>detectApiChanges\<close>\<close>

record changed_file =
  filename :: string
  status :: string
  patch :: "string option"

record change_record =
  rec_filename :: string
  rec_status :: string
  changes :: "string list"
  isApiFile :: bool

text \<open>\<open>pattern.replace(/\*/g, ".*")\<close>\<close>

definition replace_stars :: "string \<Rightarrow> string" where
  "replace_stars pattern = concat (map (\<lambda>c. if c = CHR ''*'' then ''.*'' else [c]) pattern)"

text \<open>
  The body of the callback of \<open>apiPatterns.some\<close>: build the expression from the pattern
  (no flags) and test the file name. The constructor may throw.
\<close>

definition pattern_test :: "string \<Rightarrow> string \<Rightarrow> error + bool" where
  "pattern_test pattern name =
     (case regexp_parse (replace_stars pattern) of
        Inl e \<Rightarrow> Inl e
      | Inr re \<Rightarrow> Inr (regexp_test False re name))"

text \<open>\<open>apiPatterns.some(...)\<close>: the patterns in order, stopping at the first that matches.\<close>

fun some_pattern :: "string list \<Rightarrow> string \<Rightarrow> error + bool" where
  "some_pattern [] name = Inr False"
| "some_pattern (p # ps) name =
     (case pattern_test p name of
        Inl e \<Rightarrow> Inl e
      | Inr True \<Rightarrow> Inr True
      | Inr False \<Rightarrow> some_pattern ps name)"

text \<open>\<open>files.filter(...)\<close>: the files in order; an exception in the callback ends the call.\<close>

fun filter_files :: "string list \<Rightarrow> changed_file list \<Rightarrow> error + changed_file list" where
  "filter_files apiPatterns [] = Inr []"
| "filter_files apiPatterns (f # fs) =
     (case some_pattern apiPatterns (filename f) of
        Inl e \<Rightarrow> Inl e
      | Inr keep \<Rightarrow>
          (case filter_files apiPatterns fs of
             Inl e \<Rightarrow> Inl e
           | Inr kept \<Rightarrow> Inr (if keep then f # kept else kept)))"

text \<open>The seven literals of \<open>routePatterns\<close>, in order, all with the flag \<open>i\<close> alone.\<close>

definition routePattern_sources :: "string list" where
  \<open>routePattern_sources =
     [''(@(Get|Post|Put|Delete|Patch|RequestMapping))'',
      ''app'' @ bs @ ''.(get|post|put|delete|patch)'' @ bs @ ''s*'' @ bs @ ''('',
      ''router'' @ bs @ ''.(get|post|put|delete|patch)'' @ bs @ ''s*'' @ bs @ ''('',
      ''@(api_view|action)'' @ bs @ ''s*'' @ bs @ ''('',
      ''def'' @ bs @ ''s+(get|post|put|delete|patch)'' @ bs @ ''s*'' @ bs @ ''('',
      ''func'' @ bs @ ''s+'' @ bs @ ''(.*'' @ bs @ '')'' @ bs @ ''s+(Get|Post|Put|Delete|Patch)'',
      bs @ ''[Http(Get|Post|Put|Delete|Patch)'' @ bs @ '']'']\<close>

definition routePatterns :: "regex list" where
  "routePatterns = map regex_literal routePattern_sources"

text \<open>
  The inner loop over \<open>routePatterns\<close>: on the first expression that tests true the
  trimmed line is pushed and the loop is left.
\<close>

fun scan_patterns :: "regex list \<Rightarrow> string \<Rightarrow> string list" where
  "scan_patterns [] line = []"
| "scan_patterns (p # ps) line =
     (if regexp_test True p line then [trim line] else scan_patterns ps line)"

text \<open>The loop over the lines of a patch.\<close>

definition patch_changes :: "string \<Rightarrow> string list" where
  "patch_changes p = concat (map (scan_patterns routePatterns) (split_nl p))"

text \<open>
  The callback of \<open>map\<close>. \<open>if (file.patch)\<close> is false for an absent patch and for the empty
  string.
\<close>

definition classify :: "changed_file \<Rightarrow> change_record" where
  "classify file =
     \<lparr>rec_filename = filename file,
      rec_status = status file,
      changes = (case patch file of
                   None \<Rightarrow> []
                 | Some p \<Rightarrow> if p = [] then [] else patch_changes p),
      isApiFile = True\<rparr>"

definition detectApiChanges :: "changed_file list \<Rightarrow> string list \<Rightarrow> error + change_record list" where
  "detectApiChanges files apiPatterns =
     (case filter_files apiPatterns files of
        Inl e \<Rightarrow> Inl e
      | Inr kept \<Rightarrow> Inr (map classify kept))"

subsection \<open>\<open>extractApiEndpoints\<close>\<close>

record endpoint =
  ep_method :: string
  path :: "string option"
  handler :: string
  lineNumber :: nat

text \<open>
  \<open>ep_method\<close> is the field \<open>method\<close> of the source. \<open>path\<close> is \<open>match[pathIndex]\<close>, which is
  \<open>undefined\<close> (\<open>None\<close>) for a group that did not take part in the match.
\<close>

record signature =
  regex :: regex
  methodIndex :: nat
  pathIndex :: "nat option"

text \<open>
  The five entries of \<open>patterns\<close>, named by the comments of the source (Express.js, Spring
  Boot, FastAPI, Django REST Framework, Go Gin); every literal has the flags \<open>g\<close> and \<open>i\<close>.
\<close>

definition express_source :: string where
  \<open>express_source =
     ''(app|router)'' @ bs @ ''.(get|post|put|delete|patch)'' @ bs @ ''s*'' @ bs @ ''(''
     @ bs @ ''s*['"`]([^'"`]+)['"`]''\<close>

definition spring_source :: string where
  \<open>spring_source =
     ''@(GetMapping|PostMapping|PutMapping|DeleteMapping|PatchMapping)'' @ bs @ ''s*''
     @ bs @ ''('' @ bs @ ''s*(?:value'' @ bs @ ''s*='' @ bs @ ''s*)?['"`]?([^'"`''
     @ bs @ '')]+)['"`]?''\<close>

definition fastapi_source :: string where
  \<open>fastapi_source =
     ''@app'' @ bs @ ''.(get|post|put|delete|patch)'' @ bs @ ''s*'' @ bs @ ''('' @ bs
     @ ''s*['"`]([^'"`]+)['"`]''\<close>

definition django_source :: string where
  \<open>django_source =
     ''@action'' @ bs @ ''s*'' @ bs @ ''('' @ bs @ ''s*.*methods'' @ bs @ ''s*='' @ bs
     @ ''s*'' @ bs @ ''['' @ bs @ ''s*['"`]('' @ bs @ ''w+)['"`]''\<close>

definition gin_source :: string where
  \<open>gin_source =
     ''(GET|POST|PUT|DELETE|PATCH)'' @ bs @ ''s*'' @ bs @ ''('' @ bs
     @ ''s*['"`]([^'"`]+)['"`]''\<close>

definition patterns :: "signature list" where
  "patterns =
     [\<lparr>regex = regex_literal express_source, methodIndex = 2, pathIndex = Some 3\<rparr>,
      \<lparr>regex = regex_literal spring_source, methodIndex = 1, pathIndex = Some 2\<rparr>,
      \<lparr>regex = regex_literal fastapi_source, methodIndex = 1, pathIndex = Some 2\<rparr>,
      \<lparr>regex = regex_literal django_source, methodIndex = 1, pathIndex = None\<rparr>,
      \<lparr>regex = regex_literal gin_source, methodIndex = 1, pathIndex = Some 2\<rparr>]"

text \<open>
  The object pushed for one match. \<open>match[i]?.toUpperCase() || "UNKNOWN"\<close> is
  \<open>"UNKNOWN"\<close> for an absent group and for an empty one.
\<close>

definition make_endpoint :: "signature \<Rightarrow> string \<Rightarrow> nat \<Rightarrow> jsmatch \<Rightarrow> endpoint" where
  "make_endpoint pattern line index m =
     \<lparr>ep_method = (case group m (methodIndex pattern) of
                  None \<Rightarrow> ''UNKNOWN''
                | Some g \<Rightarrow> if toUpperCase g = [] then ''UNKNOWN'' else toUpperCase g),
      path = (case pathIndex pattern of
                None \<Rightarrow> Some []
              | Some k \<Rightarrow> group m k),
      handler = trim line,
      lineNumber = index + 1\<rparr>"

text \<open>The body of the callback of \<open>lines.forEach\<close>: every match of every pattern, in order.\<close>

definition line_endpoints :: "string \<Rightarrow> nat \<Rightarrow> endpoint list" where
  "line_endpoints line index =
     concat (map (\<lambda>pattern. map (make_endpoint pattern line index)
                                (matchAll True (regex pattern) line)) patterns)"

fun forEach_line :: "nat \<Rightarrow> string list \<Rightarrow> endpoint list" where
  "forEach_line index [] = []"
| "forEach_line index (line # lines) = line_endpoints line index @ forEach_line (Suc index) lines"

text \<open>The file name is a parameter the body never reads.\<close>

definition extractApiEndpoints :: "string \<Rightarrow> string \<Rightarrow> endpoint list" where
  "extractApiEndpoints content name = forEach_line 0 (split_nl content)"

subsection \<open>Notions used to state the properties\<close>

text \<open>A pattern whose translation the \<open>RegExp\<close> constructor accepts.\<close>

definition pattern_ok :: "string \<Rightarrow> bool" where
  "pattern_ok p = (case regexp_parse (replace_stars p) of Inr re \<Rightarrow> True | Inl e \<Rightarrow> False)"

text \<open>A file the filter keeps: the callback of \<open>filter\<close> returns true for it.\<close>

definition kept_by :: "string list \<Rightarrow> changed_file \<Rightarrow> bool" where
  "kept_by apiPatterns file = (some_pattern apiPatterns (filename file) = Inr True)"

text \<open>The lines the loop of \<open>detectApiChanges\<close> visits for a file.\<close>

definition patch_lines :: "changed_file \<Rightarrow> string list" where
  "patch_lines file =
     (case patch file of
        None \<Rightarrow> []
      | Some p \<Rightarrow> if p = [] then [] else split_nl p)"

text \<open>A line on which some expression of \<open>routePatterns\<close> tests true.\<close>

definition route_line :: "string \<Rightarrow> bool" where
  "route_line line = list_ex (\<lambda>re. regexp_test True re line) routePatterns"

text \<open>A line on which no pattern of \<open>extractApiEndpoints\<close> has a match.\<close>

definition no_signature :: "string \<Rightarrow> bool" where
  "no_signature line = list_all (\<lambda>pattern. matchAll True (regex pattern) line = []) patterns"



text \<open>Eleven empty lines, then the line of scenario A as line 12.\<close>

definition users_content :: string where
  \<open>users_content = concat (replicate 11 nl) @ ''router.get('/users/:id', getUser);''\<close>

section \<open>The literals\<close>

lemma literals_parse:
  \<open>list_all (\<lambda>source. case regexp_parse source of Inr re \<Rightarrow> True | Inl e \<Rightarrow> False)
     (routePattern_sources
      @ [express_source, spring_source, fastapi_source, django_source, gin_source])\<close>
  by code_simp

text \<open>The Go Gin signature as parsed: the verb group, then the quoted path group.\<close>

lemma gin_regex:
  \<open>regex_literal gin_source =
     RSeq
       (RGroup 1
         (RAlt
           (RSeq (RChar (CHR ''G'')) (RSeq (RChar (CHR ''E'')) (RChar (CHR ''T''))))
           (RAlt
             (RSeq (RChar (CHR ''P''))
               (RSeq (RChar (CHR ''O''))
                 (RSeq (RChar (CHR ''S'')) (RChar (CHR ''T'')))))
             (RAlt
               (RSeq (RChar (CHR ''P''))
                 (RSeq (RChar (CHR ''U'')) (RChar (CHR ''T''))))
               (RAlt
                 (RSeq (RChar (CHR ''D''))
                   (RSeq (RChar (CHR ''E''))
                     (RSeq (RChar (CHR ''L''))
                       (RSeq (RChar (CHR ''E''))
                         (RSeq (RChar (CHR ''T'')) (RChar (CHR ''E'')))))))
                 (RSeq (RChar (CHR ''P''))
                   (RSeq (RChar (CHR ''A''))
                     (RSeq (RChar (CHR ''T''))
                       (RSeq (RChar (CHR ''C'')) (RChar (CHR ''H'')))))))))))
       (RSeq (RStar True (RSet False [CSpace]))
         (RSeq (RChar (CHR ''(''))
           (RSeq (RStar True (RSet False [CSpace]))
             (RSeq (RSet False [CChar (CHR 0x27), CChar (CHR 0x22), CChar (CHR 0x60)])
               (RSeq
                 (RGroup 2
                   (RPlus True
                     (RSet True
                       [CChar (CHR 0x27), CChar (CHR 0x22), CChar (CHR 0x60)])))
                 (RSet False
                   [CChar (CHR 0x27), CChar (CHR 0x22), CChar (CHR 0x60)]))))))\<close>
  by code_simp

text \<open>The translation of two path patterns, as parsed.\<close>

lemma api_pattern_regex:
  \<open>replace_stars ''**/api/**'' = ''.*.*/api/.*.*''
   \<and> regexp_parse ''.*.*/api/.*.*'' =
       Inr (RSeq (RStar True RAny) (RSeq (RStar True RAny)
           (RSeq (RChar (CHR ''/'')) (RSeq (RChar (CHR ''a'')) (RSeq (RChar (CHR ''p''))
           (RSeq (RChar (CHR ''i'')) (RSeq (RChar (CHR ''/''))
           (RSeq (RStar True RAny) (RStar True RAny)))))))))\<close>
  by code_simp

lemma java_pattern_regex:
  \<open>replace_stars ''**/*.java'' = ''.*.*/.*.java''
   \<and> regexp_parse ''.*.*/.*.java'' =
       Inr (RSeq (RStar True RAny) (RSeq (RStar True RAny)
           (RSeq (RChar (CHR ''/'')) (RSeq (RStar True RAny) (RSeq RAny
           (RSeq (RChar (CHR ''j'')) (RSeq (RChar (CHR ''a''))
           (RSeq (RChar (CHR ''v'')) (RChar (CHR ''a''))))))))))\<close>
  by code_simp

section \<open>Properties of the path matcher\<close>

lemma api_foo_eval: \<open>pattern_test ''**/api/**'' ''src/api/foo.js'' = Inr True\<close>
  by code_simp

lemma apiary_eval: \<open>pattern_test ''**/api/**'' ''src/apiary/foo.js'' = Inr False\<close>
  by code_simp

lemma other_eval: \<open>pattern_test ''**/api/**'' ''src/other/foo.js'' = Inr False\<close>
  by code_simp

text \<open>
  C2, as stated: the pattern \<open>**/api/**\<close> is said to match \<open>src/apiary/foo.js\<close>. It does
  not: the translated expression \<open>.*.*/api/.*.*\<close> needs the text \<open>/api/\<close> in the path, and
  in \<open>src/apiary/foo.js\<close> the code unit after \<open>/api\<close> is \<open>a\<close>.
\<close>

theorem apiary_not_matched:
  \<open>pattern_test ''**/api/**'' ''src/apiary/foo.js'' \<noteq> Inr True\<close>
  by (simp add: apiary_eval)

text \<open>
  C2, amended: for the pattern \<open>**/api/**\<close> the path matcher returns true for
  \<open>src/api/foo.js\<close>, false for \<open>src/apiary/foo.js\<close> and false for \<open>src/other/foo.js\<close>.
\<close>

theorem api_pattern_matches:
  \<open>pattern_test ''**/api/**'' ''src/api/foo.js'' = Inr True
   \<and> pattern_test ''**/api/**'' ''src/apiary/foo.js'' = Inr False
   \<and> pattern_test ''**/api/**'' ''src/other/foo.js'' = Inr False\<close>
  by (simp add: api_foo_eval apiary_eval other_eval)

lemma xjava_eval: \<open>pattern_test ''**/*.java'' ''src/routes/Xjava'' = Inr True\<close>
  by code_simp

lemma dot_parse: \<open>regexp_parse (replace_stars ''.'') = Inr RAny\<close>
  by code_simp

lemma dot_any_code_unit:
  \<open>pattern_test ''.'' [d] = Inr (d \<noteq> CHR 0x0A \<and> d \<noteq> CHR 0x0D)\<close>
  by (simp add: pattern_test_def dot_parse regexp_test_def exec_at.simps step_char_def
      rest_def pos_def caps_def any_matches_def)

text \<open>
  C10: a code unit of a pattern other than \<open>*\<close> goes into the source of the regular
  expression as it is, with no escaping, so it has its meaning in that language. The dot is
  the wildcard: the pattern \<open>.\<close> matches every one-unit path but a line terminator, and
  \<open>**/*.java\<close> matches \<open>src/routes/Xjava\<close>, a path with no dot in it.
\<close>

theorem pattern_units_keep_regex_meaning:
  assumes \<open>c \<noteq> CHR ''*''\<close>
  shows \<open>replace_stars (c # p) = c # replace_stars p
         \<and> pattern_test ''.'' [d] = Inr (d \<noteq> CHR 0x0A \<and> d \<noteq> CHR 0x0D)
         \<and> pattern_test ''**/*.java'' ''src/routes/Xjava'' = Inr True
         \<and> CHR ''.'' \<notin> set ''src/routes/Xjava''\<close>
  using assms by (simp add: replace_stars_def dot_any_code_unit xjava_eval)

theorem pattern_units_keep_regex_meaning_witness:
  \<open>replace_stars ''.java'' = CHR ''.'' # replace_stars ''java''
   \<and> pattern_test ''.'' ''X'' = Inr True
   \<and> pattern_test ''**/*.java'' ''src/routes/Xjava'' = Inr True
   \<and> CHR ''.'' \<notin> set ''src/routes/Xjava''\<close>
  using pattern_units_keep_regex_meaning [of \<open>CHR ''.''\<close> \<open>''java''\<close> \<open>CHR ''X''\<close>]
  by simp

subsection \<open>Patterns that are not regular expressions\<close>









section \<open>Properties of \<open>detectApiChanges\<close>\<close>

lemma pattern_ok_test:
  assumes "pattern_ok p"
  shows "\<exists>b. pattern_test p name = Inr b"
  using assms by (auto simp add: pattern_ok_def pattern_test_def split: sum.splits)

lemma some_pattern_valid:
  "list_all pattern_ok pats \<Longrightarrow>
     some_pattern pats name = Inr (list_ex (\<lambda>p. pattern_test p name = Inr True) pats)"
proof (induction pats)
  case Nil
  then show ?case by simp
next
  case (Cons p ps)
  then obtain b where b: "pattern_test p name = Inr b"
    using pattern_ok_test [of p name] by auto
  show ?case
  proof (cases b)
    case True
    then show ?thesis using b by simp
  next
    case False
    then show ?thesis using b Cons by simp
  qed
qed

lemma filter_files_result:
  "filter_files pats files = Inr kept \<Longrightarrow> kept = filter (kept_by pats) files"
proof (induction files arbitrary: kept)
  case Nil
  then show ?case by simp
next
  case (Cons f fs)
  from Cons.prems obtain keep rest' where
    k: "some_pattern pats (filename f) = Inr keep" and
    r: "filter_files pats fs = Inr rest'" and
    kept: "kept = (if keep then f # rest' else rest')"
    by (auto split: sum.splits)
  have "rest' = filter (kept_by pats) fs" using Cons.IH r by simp
  moreover have "kept_by pats f = keep" using k by (simp add: kept_by_def)
  ultimately show ?case using kept by simp
qed

lemma filter_files_valid:
  assumes "list_all pattern_ok pats"
  shows "filter_files pats files = Inr (filter (kept_by pats) files)"
proof (induction files)
  case Nil
  then show ?case by simp
next
  case (Cons f fs)
  have "some_pattern pats (filename f)
          = Inr (list_ex (\<lambda>p. pattern_test p (filename f) = Inr True) pats)"
    using assms by (rule some_pattern_valid)
  then show ?case using Cons by (auto simp add: kept_by_def)
qed

lemma detect_result:
  "detectApiChanges files pats = Inr out \<Longrightarrow> out = map classify (filter (kept_by pats) files)"
  using filter_files_result [of pats files]
  by (auto simp add: detectApiChanges_def split: sum.splits)

lemma detect_valid:
  "list_all pattern_ok pats \<Longrightarrow>
     detectApiChanges files pats = Inr (map classify (filter (kept_by pats) files))"
  by (simp add: detectApiChanges_def filter_files_valid)


lemma scan_patterns_eq:
  "scan_patterns ps line = (if list_ex (\<lambda>re. regexp_test True re line) ps then [trim line] else [])"
  by (induction ps) simp_all

lemma scan_patterns_first:
  "list_all (\<lambda>re. \<not> regexp_test True re line) ps \<Longrightarrow> regexp_test True re line \<Longrightarrow>
     scan_patterns (ps @ re # qs) line = [trim line]"
  by (induction ps) simp_all

lemma concat_scan:
  "concat (map (scan_patterns ps) ls) = map trim (filter (\<lambda>l. list_ex (\<lambda>re. regexp_test True re l) ps) ls)"
  by (induction ls) (simp_all add: scan_patterns_eq)

lemma changes_classify:
  "changes (classify file) = concat (map (scan_patterns routePatterns) (patch_lines file))"
  by (simp add: classify_def patch_lines_def patch_changes_def split: option.splits)

lemma changes_classify_filter:
  "changes (classify file) = map trim (filter route_line (patch_lines file))"
  unfolding changes_classify concat_scan route_line_def ..

lemma split_nl_nonempty: "split_nl s \<noteq> []"
  by (induction s) (auto split: list.splits)

lemma split_nl_Nil: "split_nl s = [[]] \<longleftrightarrow> s = []"
  by (cases s) (auto split: list.splits simp add: split_nl_nonempty)

subsection \<open>Which patch lines are recorded\<close>

lemma controller_ok: \<open>pattern_ok ''**/*Controller*''\<close>
  by code_simp

lemma patch_any_line_eval:
  \<open>detectApiChanges
     [\<lparr>filename = ''src/UserController.java'', status = ''modified'',
       patch = Some (''@@ -1,3 +1,3 @@ app.get('/a', f)'' @ nl
                     @ ''-    @GetMapping("/old")'' @ nl
                     @ ''     @PutMapping("/ctx")'' @ nl
                     @ ''     int x;'' @ nl
                     @ ''+    @PostMapping("/new")'')\<rparr>]
     [''**/*Controller*'']
   = Inr [\<lparr>rec_filename = ''src/UserController.java'', rec_status = ''modified'',
           changes = [''@@ -1,3 +1,3 @@ app.get('/a', f)'',
                      ''-    @GetMapping("/old")'',
                      ''@PutMapping("/ctx")'',
                      ''+    @PostMapping("/new")''],
           isApiFile = True\<rparr>]\<close>
  by code_simp

text \<open>
  C4, as stated: only added or modified lines of the patch are said to give entries. The
  loop tests every line of the patch and never looks at its first character: here the hunk
  header, the removed line and the context line are recorded next to the added line.
\<close>

theorem removed_and_context_lines_recorded:
  \<open>detectApiChanges
     [\<lparr>filename = ''src/UserController.java'', status = ''modified'',
       patch = Some (''@@ -1,3 +1,3 @@ app.get('/a', f)'' @ nl
                     @ ''-    @GetMapping("/old")'' @ nl
                     @ ''     @PutMapping("/ctx")'' @ nl
                     @ ''     int x;'' @ nl
                     @ ''+    @PostMapping("/new")'')\<rparr>]
     [''**/*Controller*'']
   = Inr [\<lparr>rec_filename = ''src/UserController.java'', rec_status = ''modified'',
           changes = [''@@ -1,3 +1,3 @@ app.get('/a', f)'',
                      ''-    @GetMapping("/old")'',
                      ''@PutMapping("/ctx")'',
                      ''+    @PostMapping("/new")''],
           isApiFile = True\<rparr>]\<close>
  by (rule patch_any_line_eval)

text \<open>
  C4, amended: for every file kept by the path filter, the matched-line list is the trimmed
  text of every line of its patch, in patch order, on which some route signature tests
  true, whatever kind of diff line it is (added, removed, context or hunk header). With
  patterns that are regular expressions the call returns the records of the kept files.
\<close>

theorem changes_from_every_patch_line:
  \<open>changes (classify file) = map trim (filter route_line (patch_lines file))
   \<and> (list_all pattern_ok apiPatterns \<longrightarrow>
         detectApiChanges files apiPatterns = Inr (map classify (filter (kept_by apiPatterns) files)))
   \<and> (\<forall>out. detectApiChanges files apiPatterns = Inr out \<longrightarrow>
         out = map classify (filter (kept_by apiPatterns) files))\<close>
proof (intro conjI allI impI)
  show \<open>changes (classify file) = map trim (filter route_line (patch_lines file))\<close>
    by (rule changes_classify_filter)
next
  assume \<open>list_all pattern_ok apiPatterns\<close>
  then show \<open>detectApiChanges files apiPatterns
               = Inr (map classify (filter (kept_by apiPatterns) files))\<close>
    by (rule detect_valid)
next
  fix out
  assume \<open>detectApiChanges files apiPatterns = Inr out\<close>
  then show \<open>out = map classify (filter (kept_by apiPatterns) files)\<close>
    by (rule detect_result)
qed

theorem changes_from_every_patch_line_witness:
  \<open>list_all pattern_ok [''**/*Controller*'']
   \<and> detectApiChanges
         [\<lparr>filename = ''src/UserController.java'', status = ''modified'',
           patch = Some (''@@ -1,3 +1,3 @@ app.get('/a', f)'' @ nl
                         @ ''-    @GetMapping("/old")'' @ nl
                         @ ''     @PutMapping("/ctx")'' @ nl
                         @ ''     int x;'' @ nl
                         @ ''+    @PostMapping("/new")'')\<rparr>]
         [''**/*Controller*'']
       = Inr (map classify (filter (kept_by [''**/*Controller*''])
           [\<lparr>filename = ''src/UserController.java'', status = ''modified'',
             patch = Some (''@@ -1,3 +1,3 @@ app.get('/a', f)'' @ nl
                           @ ''-    @GetMapping("/old")'' @ nl
                           @ ''     @PutMapping("/ctx")'' @ nl
                           @ ''     int x;'' @ nl
                           @ ''+    @PostMapping("/new")'')\<rparr>]))
   \<and> [\<lparr>rec_filename = ''src/UserController.java'', rec_status = ''modified'',
        changes = [''@@ -1,3 +1,3 @@ app.get('/a', f)'',
                   ''-    @GetMapping("/old")'',
                   ''@PutMapping("/ctx")'',
                   ''+    @PostMapping("/new")''],
        isApiFile = True\<rparr>]
       = map classify (filter (kept_by [''**/*Controller*''])
           [\<lparr>filename = ''src/UserController.java'', status = ''modified'',
             patch = Some (''@@ -1,3 +1,3 @@ app.get('/a', f)'' @ nl
                           @ ''-    @GetMapping("/old")'' @ nl
                           @ ''     @PutMapping("/ctx")'' @ nl
                           @ ''     int x;'' @ nl
                           @ ''+    @PostMapping("/new")'')\<rparr>])\<close>
proof -
  have ok: \<open>list_all pattern_ok [''**/*Controller*'']\<close>
    by (simp add: controller_ok)
  from changes_from_every_patch_line
         [of _ \<open>[''**/*Controller*'']\<close>
             \<open>[\<lparr>filename = ''src/UserController.java'', status = ''modified'',
                patch = Some (''@@ -1,3 +1,3 @@ app.get('/a', f)'' @ nl
                              @ ''-    @GetMapping("/old")'' @ nl
                              @ ''     @PutMapping("/ctx")'' @ nl
                              @ ''     int x;'' @ nl
                              @ ''+    @PostMapping("/new")'')\<rparr>]\<close>]
  show ?thesis
    using ok patch_any_line_eval by blast
qed

subsection \<open>A kept file without a patch\<close>







subsection \<open>One entry for a line at most\<close>

lemma scan_patterns_length: \<open>length (scan_patterns ps line) \<le> 1\<close>
  by (simp add: scan_patterns_eq)

lemma two_signatures_eval:
  \<open>length (filter (\<lambda>re. regexp_test True re ''app.get('/a', f); router.post('/b', g)'')
             routePatterns) = 2
   \<and> scan_patterns routePatterns ''app.get('/a', f); router.post('/b', g)''
       = [''app.get('/a', f); router.post('/b', g)'']\<close>
  by code_simp

text \<open>
  C6: the \<open>changes\<close> list of a kept file is, line by line of its patch, what the inner loop
  gives for the line, which is no entry, or the trimmed line once: it is pushed at the first
  expression of \<open>routePatterns\<close> that tests true, and the expressions after it are not
  consulted. The line \<open>app.get('/a', f); router.post('/b', g)\<close> tests true on two
  signatures and gives one entry.
\<close>

theorem one_entry_per_patch_line:
  \<open>changes (classify file) = concat (map (scan_patterns routePatterns) (patch_lines file))
   \<and> length (scan_patterns routePatterns line) \<le> 1
   \<and> scan_patterns routePatterns line = (if route_line line then [trim line] else [])
   \<and> (list_all (\<lambda>re. \<not> regexp_test True re line) ps \<and> regexp_test True re line \<longrightarrow>
         scan_patterns (ps @ re # qs) line = [trim line])
   \<and> (\<forall>out. detectApiChanges files apiPatterns = Inr out \<longrightarrow>
         out = map classify (filter (kept_by apiPatterns) files))
   \<and> length (filter (\<lambda>re. regexp_test True re ''app.get('/a', f); router.post('/b', g)'')
               routePatterns) = 2
   \<and> scan_patterns routePatterns ''app.get('/a', f); router.post('/b', g)''
       = [''app.get('/a', f); router.post('/b', g)'']\<close>
proof (intro conjI allI impI)
  show \<open>changes (classify file) = concat (map (scan_patterns routePatterns) (patch_lines file))\<close>
    by (rule changes_classify)
  show \<open>length (scan_patterns routePatterns line) \<le> 1\<close>
    by (rule scan_patterns_length)
  show \<open>scan_patterns routePatterns line = (if route_line line then [trim line] else [])\<close>
    by (simp add: scan_patterns_eq route_line_def)
  show \<open>scan_patterns (ps @ re # qs) line = [trim line]\<close>
    if \<open>list_all (\<lambda>re. \<not> regexp_test True re line) ps \<and> regexp_test True re line\<close>
    using that scan_patterns_first [of line ps re qs] by blast
  show \<open>out = map classify (filter (kept_by apiPatterns) files)\<close>
    if \<open>detectApiChanges files apiPatterns = Inr out\<close> for out
    using that by (rule detect_result)
  show \<open>length (filter (\<lambda>re. regexp_test True re ''app.get('/a', f); router.post('/b', g)'')
               routePatterns) = 2\<close>
    using two_signatures_eval by blast
  show \<open>scan_patterns routePatterns ''app.get('/a', f); router.post('/b', g)''
       = [''app.get('/a', f); router.post('/b', g)'']\<close>
    using two_signatures_eval by blast
qed

lemma test_z_a: \<open>\<not> regexp_test True (RChar (CHR ''z'')) ''a'' \<and> regexp_test True (RChar (CHR ''a'')) ''a''\<close>
  by code_simp

theorem one_entry_per_patch_line_witness:
  \<open>list_all (\<lambda>re. \<not> regexp_test True re ''a'') [RChar (CHR ''z'')]
   \<and> regexp_test True (RChar (CHR ''a'')) ''a''
   \<and> scan_patterns ([RChar (CHR ''z'')] @ RChar (CHR ''a'') # [RChar (CHR ''a'')]) ''a'' = [trim ''a'']
   \<and> detectApiChanges [] [] = Inr []
   \<and> [] = map classify (filter (kept_by []) [])\<close>
proof -
  have h: \<open>list_all (\<lambda>re. \<not> regexp_test True re ''a'') [RChar (CHR ''z'')]
           \<and> regexp_test True (RChar (CHR ''a'')) ''a''\<close>
    using test_z_a by simp
  have d: \<open>detectApiChanges [] [] = Inr []\<close>
    by (simp add: detectApiChanges_def)
  from one_entry_per_patch_line
         [of _ \<open>''a''\<close> \<open>[RChar (CHR ''z'')]\<close> \<open>RChar (CHR ''a'')\<close> \<open>[RChar (CHR ''a'')]\<close> \<open>[]\<close> \<open>[]\<close>]
  have \<open>scan_patterns ([RChar (CHR ''z'')] @ RChar (CHR ''a'') # [RChar (CHR ''a'')]) ''a'' = [trim ''a'']\<close>
    and \<open>[] = map classify (filter (kept_by []) [])\<close>
    using h d by blast+
  then show ?thesis using h d by blast
qed

subsection \<open>A match of a suffix is a match of the whole path\<close>















subsection \<open>The controller scenario\<close>








section \<open>Properties of \<open>extractApiEndpoints\<close>\<close>

lemma line_endpoints_none: \<open>no_signature line \<Longrightarrow> line_endpoints line index = []\<close>
proof -
  have \<open>list_all (\<lambda>pattern. matchAll True (regex pattern) line = []) ps \<Longrightarrow>
        concat (map (\<lambda>pattern. map (make_endpoint pattern line index)
                                   (matchAll True (regex pattern) line)) ps) = []\<close> for ps
    by (induction ps) simp_all
  then show \<open>no_signature line \<Longrightarrow> line_endpoints line index = []\<close>
    by (simp add: no_signature_def line_endpoints_def)
qed

lemma forEach_line_append:
  \<open>forEach_line index (xs @ ys) = forEach_line index xs @ forEach_line (index + length xs) ys\<close>
  by (induction xs arbitrary: index) simp_all

lemma forEach_line_none: \<open>list_all no_signature lines \<Longrightarrow> forEach_line index lines = []\<close>
  by (induction lines arbitrary: index) (simp_all add: line_endpoints_none)

lemma forEach_line_only:
  assumes \<open>k < length lines\<close>
    and \<open>\<forall>i < length lines. i \<noteq> k \<longrightarrow> no_signature (lines ! i)\<close>
  shows \<open>forEach_line 0 lines = line_endpoints (lines ! k) k\<close>
proof -
  have split: \<open>lines = take k lines @ (lines ! k) # drop (Suc k) lines\<close>
    using assms(1) by (rule id_take_nth_drop)
  have before: \<open>list_all no_signature (take k lines)\<close>
    using assms by (auto simp add: list_all_iff in_set_conv_nth)
  have after: \<open>list_all no_signature (drop (Suc k) lines)\<close>
    using assms by (auto simp add: list_all_iff in_set_conv_nth)
  have \<open>forEach_line 0 (take k lines @ (lines ! k) # drop (Suc k) lines)
          = line_endpoints (lines ! k) k\<close>
    using assms(1) before after by (simp add: forEach_line_append forEach_line_none)
  then show ?thesis using split by simp
qed

lemma users_line_eval:
  \<open>line_endpoints ''router.get('/users/:id', getUser);'' 11 =
     [\<lparr>ep_method = ''GET'', path = Some ''/users/:id'',
       handler = ''router.get('/users/:id', getUser);'', lineNumber = 12\<rparr>,
      \<lparr>ep_method = ''GET'', path = Some ''/users/:id'',
       handler = ''router.get('/users/:id', getUser);'', lineNumber = 12\<rparr>]\<close>
  by code_simp

lemma users_line_signatures:
  \<open>map (\<lambda>pattern. length (matchAll True (regex pattern) ''router.get('/users/:id', getUser);''))
       patterns = [1, 0, 0, 0, 1]\<close>
  by code_simp

lemma users_line_general:
  assumes \<open>11 < length (split_nl content)\<close>
    and \<open>split_nl content ! 11 = ''router.get('/users/:id', getUser);''\<close>
    and \<open>\<forall>i < length (split_nl content). i \<noteq> 11 \<longrightarrow> no_signature (split_nl content ! i)\<close>
  shows \<open>extractApiEndpoints content name =
     [\<lparr>ep_method = ''GET'', path = Some ''/users/:id'',
       handler = ''router.get('/users/:id', getUser);'', lineNumber = 12\<rparr>,
      \<lparr>ep_method = ''GET'', path = Some ''/users/:id'',
       handler = ''router.get('/users/:id', getUser);'', lineNumber = 12\<rparr>]\<close>
  using forEach_line_only [OF assms(1,3)] assms(2) users_line_eval
  by (simp add: extractApiEndpoints_def)

lemma eleven_empty_lines_eval:
  \<open>split_nl users_content
     = replicate 11 [] @ [''router.get('/users/:id', getUser);'']\<close>
  by code_simp

lemma empty_line_eval: \<open>no_signature []\<close>
  by code_simp


lemma users_content_eval:
  \<open>extractApiEndpoints users_content name =
     [\<lparr>ep_method = ''GET'', path = Some ''/users/:id'',
       handler = ''router.get('/users/:id', getUser);'', lineNumber = 12\<rparr>,
      \<lparr>ep_method = ''GET'', path = Some ''/users/:id'',
       handler = ''router.get('/users/:id', getUser);'', lineNumber = 12\<rparr>]\<close>
proof (rule users_line_general)
  show \<open>11 < length (split_nl users_content)\<close>
    by (simp add: eleven_empty_lines_eval)
  show \<open>split_nl users_content ! 11
          = ''router.get('/users/:id', getUser);''\<close>
    by (simp add: eleven_empty_lines_eval nth_append)
  show \<open>\<forall>i < length (split_nl users_content).
          i \<noteq> 11 \<longrightarrow>
          no_signature (split_nl users_content ! i)\<close>
    by (simp add: eleven_empty_lines_eval nth_append empty_line_eval)
qed

subsection \<open>Scenario A\<close>

text \<open>
  C1, as stated: a content whose line 12 is \<open>router.get('/users/:id', getUser);\<close> and whose
  other lines match no signature is said to give exactly one descriptor. The line matches
  two signatures, the first (Express) and the fifth (Go Gin, whose \<open>GET\<close> matches \<open>get\<close>
  under the flag \<open>i\<close>): with eleven empty lines before it, two equal descriptors are returned.
\<close>

theorem users_line_gives_two_descriptors:
  \<open>split_nl users_content ! 11
     = ''router.get('/users/:id', getUser);''
   \<and> list_all no_signature
         (take 11 (split_nl users_content))
   \<and> length (split_nl users_content) = 12
   \<and> map (\<lambda>pattern. length (matchAll True (regex pattern) ''router.get('/users/:id', getUser);''))
         patterns = [1, 0, 0, 0, 1]
   \<and> extractApiEndpoints users_content
         ''routes.js''
       \<noteq> [\<lparr>ep_method = ''GET'', path = Some ''/users/:id'',
             handler = ''router.get('/users/:id', getUser);'', lineNumber = 12\<rparr>]\<close>
  by (simp add: eleven_empty_lines_eval nth_append empty_line_eval list_all_iff
      users_line_signatures users_content_eval)

text \<open>
  C1, amended: for every content string whose 12th line is exactly
  \<open>router.get('/users/:id', getUser);\<close> and whose other lines match no signature,
  \<open>extractApiEndpoints\<close> returns exactly two descriptors, both equal to the descriptor with
  method \<open>GET\<close>, path \<open>/users/:id\<close>, the line as handler and line number 12.
\<close>

theorem users_line_descriptors:
  assumes \<open>11 < length (split_nl content)\<close>
    and \<open>split_nl content ! 11 = ''router.get('/users/:id', getUser);''\<close>
    and \<open>\<forall>i < length (split_nl content). i \<noteq> 11 \<longrightarrow> no_signature (split_nl content ! i)\<close>
  shows \<open>extractApiEndpoints content name =
     [\<lparr>ep_method = ''GET'', path = Some ''/users/:id'',
       handler = ''router.get('/users/:id', getUser);'', lineNumber = 12\<rparr>,
      \<lparr>ep_method = ''GET'', path = Some ''/users/:id'',
       handler = ''router.get('/users/:id', getUser);'', lineNumber = 12\<rparr>]\<close>
  using assms by (rule users_line_general)

theorem users_line_descriptors_witness:
  \<open>extractApiEndpoints users_content
     ''routes.js'' =
     [\<lparr>ep_method = ''GET'', path = Some ''/users/:id'',
       handler = ''router.get('/users/:id', getUser);'', lineNumber = 12\<rparr>,
      \<lparr>ep_method = ''GET'', path = Some ''/users/:id'',
       handler = ''router.get('/users/:id', getUser);'', lineNumber = 12\<rparr>]\<close>
proof (rule users_line_descriptors)
  show \<open>11 < length (split_nl users_content)\<close>
    by (simp add: eleven_empty_lines_eval)
  show \<open>split_nl users_content ! 11
          = ''router.get('/users/:id', getUser);''\<close>
    by (simp add: eleven_empty_lines_eval nth_append)
  show \<open>\<forall>i < length (split_nl users_content).
          i \<noteq> 11 \<longrightarrow>
          no_signature (split_nl users_content ! i)\<close>
    by (simp add: eleven_empty_lines_eval nth_append empty_line_eval)
qed

subsection \<open>Line numbers\<close>

lemma line_endpoints_fields:
  \<open>e \<in> set (line_endpoints line index) \<Longrightarrow> lineNumber e = index + 1 \<and> handler e = trim line\<close>
  by (auto simp add: line_endpoints_def make_endpoint_def)

lemma forEach_line_fields:
  \<open>e \<in> set (forEach_line index lines) \<Longrightarrow>
     index < lineNumber e \<and> lineNumber e \<le> index + length lines
     \<and> handler e = trim (lines ! (lineNumber e - 1 - index))\<close>
proof (induction lines arbitrary: index)
  case Nil
  then show ?case by simp
next
  case (Cons line lines)
  from Cons.prems
  consider \<open>e \<in> set (line_endpoints line index)\<close> | \<open>e \<in> set (forEach_line (Suc index) lines)\<close>
    by auto
  then show ?case
  proof cases
    case 1
    then show ?thesis using line_endpoints_fields [of e line index] by simp
  next
    case 2
    then have ih: \<open>Suc index < lineNumber e\<close> \<open>lineNumber e \<le> Suc index + length lines\<close>
        \<open>handler e = trim (lines ! (lineNumber e - 1 - Suc index))\<close>
      using Cons.IH [of "Suc index"] by simp_all
    have \<open>lineNumber e - 1 - index = Suc (lineNumber e - 1 - Suc index)\<close>
      using ih(1) by simp
    then show ?thesis using ih by simp
  qed
qed

text \<open>
  C7: every descriptor returned has a line number between 1 and the number of lines of the
  content split on the line feed, and its handler is the trimmed text of that line. The
  result, and with it the numbering, is a function of the content alone: the file name has
  no influence on it.
\<close>

theorem line_numbers_correct:
  assumes \<open>e \<in> set (extractApiEndpoints content name)\<close>
  shows \<open>1 \<le> lineNumber e \<and> lineNumber e \<le> length (split_nl content)
         \<and> handler e = trim (split_nl content ! (lineNumber e - 1))
         \<and> extractApiEndpoints content other_name = extractApiEndpoints content name\<close>
  using forEach_line_fields [of e 0 "split_nl content"] assms
  by (simp add: extractApiEndpoints_def)

theorem line_numbers_correct_witness:
  \<open>\<lparr>ep_method = ''GET'', path = Some ''/users/:id'',
     handler = ''router.get('/users/:id', getUser);'', lineNumber = 12\<rparr>
     \<in> set (extractApiEndpoints users_content
              ''routes.js'')
   \<and> (1::nat) \<le> 12
   \<and> 12 \<le> length (split_nl users_content)
   \<and> ''router.get('/users/:id', getUser);''
       = trim (split_nl users_content ! (12 - 1))\<close>
proof -
  have m: \<open>\<lparr>ep_method = ''GET'', path = Some ''/users/:id'',
     handler = ''router.get('/users/:id', getUser);'', lineNumber = 12\<rparr>
     \<in> set (extractApiEndpoints users_content
              ''routes.js'')\<close>
    by (simp add: users_content_eval)
  show ?thesis
    using line_numbers_correct [OF m] m by simp
qed

subsection \<open>Determinism\<close>






end
